theory Spec2Isabelle
  imports Main "HOL-Library.Char_ord" "HOL-Library.List_Lexorder" "HOL-Library.Multiset"
begin

section \<open>The memoizing cache decorator of edhrec/caching.py\<close>

text \<open>
  The module wraps a fetch function in a closure that keeps a dictionary from call keys to
  entries \<open>{"result": ..., "expiry": ...}\<close>. The embedding follows the Python line by line.

  Conventions of the model:
  \<^item> Argument values have a type \<open>'v\<close>; HOL equality on \<open>'v\<close> stands for Python's \<open>==\<close>
    (with a consistent hash), so every argument is taken to be hashable.
  \<^item> \<open>*args\<close> is a list of values. \<open>**kwargs\<close> is a dictionary in insertion order: an
    association list of (name, value) pairs. Python never builds a \<open>kwargs\<close> with a
    repeated name, so a well-formed \<open>kwargs\<close> has distinct names.
  \<^item> A \<open>datetime\<close> is an integer number of microseconds, the resolution of the Python
    type; \<open>datetime.now(timezone.utc)\<close> is the parameter \<open>now\<close> of a call, so the clock
    is injected. The range limit of \<open>datetime\<close> (year 9999) is not modelled.
  \<^item> The wrapped function is effectful: it transforms a world \<open>'w\<close> (network, counters)
    and either raises or returns. It has no access to the closure's cache dictionary.
  \<^item> Exceptions are values: the result of a call is \<open>Inl exception\<close> or \<open>Inr value\<close>.
\<close>

subsection \<open>Data\<close>

text \<open>Python exceptions: the \<open>KeyError\<close> of a failed dictionary subscript, or any other.\<close>

datatype 'e exn = KeyError | Exn 'e

text \<open>A cache entry, the dictionary \<open>{"result": result, "expiry": expiry}\<close>.\<close>

record 'r entry =
  result :: 'r
  expiry :: int

type_synonym 'v cache_key = "'v list \<times> (string \<times> 'v) list"

type_synonym ('v, 'r) cache = "'v cache_key \<rightharpoonup> 'r entry"

type_synonym ('v, 'e, 'r, 'w) pyfun =
  "'v list \<Rightarrow> (string \<times> 'v) list \<Rightarrow> 'w \<Rightarrow> ('e exn + 'r) \<times> 'w"

subsection \<open>Python primitives used by the wrapper\<close>

text \<open>\<open>timedelta(seconds=s)\<close>, in microseconds.\<close>

definition timedelta :: "int \<Rightarrow> int" where
  "timedelta seconds = seconds * 1000000"

text \<open>
  \<open>sorted(kwargs.items())\<close>: a stable sort of the (name, value) tuples. Tuples are compared
  by their first differing component; names in a dictionary are distinct, so the name
  decides every comparison and the values are never compared.
\<close>

definition sorted_items :: "(string \<times> 'v) list \<Rightarrow> (string \<times> 'v) list" where
  "sorted_items kwargs = sort_key fst kwargs"

text \<open>\<open>d[k]\<close>: raises \<open>KeyError\<close> when the key is missing.\<close>

definition getitem :: "('k \<rightharpoonup> 'a) \<Rightarrow> 'k \<Rightarrow> 'e exn + 'a" where
  "getitem d k = (case d k of None \<Rightarrow> Inl KeyError | Some v \<Rightarrow> Inr v)"

subsection \<open>The wrapper\<close>

text \<open>Line 8: \<open>cache_key = (args, tuple(sorted(kwargs.items())))\<close>.\<close>

definition cache_key :: "'v list \<Rightarrow> (string \<times> 'v) list \<Rightarrow> 'v cache_key" where
  "cache_key args kwargs = (args, sorted_items kwargs)"

text \<open>
  The closure \<open>wrapper\<close> of \<open>generate_wrapped_func(function, cache)\<close>, lines 6 to 20. It
  takes the clock reading, the arguments, the cache and the world, and returns the outcome
  with the cache and the world after the call. An exception leaves the call at the point
  where it is raised, with the state reached so far.
\<close>

definition wrapper ::
  "('v, 'e, 'r, 'w) pyfun \<Rightarrow> int \<Rightarrow> 'v list \<Rightarrow> (string \<times> 'v) list \<Rightarrow>
     ('v, 'r) cache \<Rightarrow> 'w \<Rightarrow> ('e exn + 'r) \<times> ('v, 'r) cache \<times> 'w" where
  "wrapper function now args kwargs cache w =
    (let key = cache_key args kwargs in
     if key \<in> dom cache then
       (case getitem cache key of
          Inl x \<Rightarrow> (Inl x, cache, w)
        | Inr old \<Rightarrow>
            (if now \<ge> expiry old then
               (case function args kwargs w of
                  (Inl x, w') \<Rightarrow> (Inl x, cache, w')
                | (Inr res, w') \<Rightarrow>
                    (let expiry' = now + timedelta 86400;
                         cache' = cache(key \<mapsto> \<lparr>result = res, expiry = expiry'\<rparr>)
                     in (case getitem cache' key of
                           Inl x \<Rightarrow> (Inl x, cache', w')
                         | Inr e \<Rightarrow> (Inr (result e), cache', w'))))
             else
               (case getitem cache key of
                  Inl x \<Rightarrow> (Inl x, cache, w)
                | Inr e \<Rightarrow> (Inr (result e), cache, w))))
     else
       (case function args kwargs w of
          (Inl x, w') \<Rightarrow> (Inl x, cache, w')
        | (Inr res, w') \<Rightarrow>
            (let expiry' = now + timedelta 86400;
                 cache' = cache(key \<mapsto> \<lparr>result = res, expiry = expiry'\<rparr>)
             in (Inr res, cache', w'))))"

text \<open>
  The variant the specification asks for in its design notes: on expiry it returns the
  computed result directly instead of reading it back from the cache. It follows the
  specification's steps 3a, 3b and 4, not the source.
\<close>

definition wrapper_direct ::
  "('v, 'e, 'r, 'w) pyfun \<Rightarrow> int \<Rightarrow> 'v list \<Rightarrow> (string \<times> 'v) list \<Rightarrow>
     ('v, 'r) cache \<Rightarrow> 'w \<Rightarrow> ('e exn + 'r) \<times> ('v, 'r) cache \<times> 'w" where
  "wrapper_direct function now args kwargs cache w =
    (let key = cache_key args kwargs in
     case cache key of
       Some old \<Rightarrow>
         (if now \<ge> expiry old then
            (case function args kwargs w of
               (Inl x, w') \<Rightarrow> (Inl x, cache, w')
             | (Inr res, w') \<Rightarrow>
                 (Inr res, cache(key \<mapsto> \<lparr>result = res, expiry = now + timedelta 86400\<rparr>), w'))
          else (Inr (result old), cache, w))
     | None \<Rightarrow>
         (case function args kwargs w of
            (Inl x, w') \<Rightarrow> (Inl x, cache, w')
          | (Inr res, w') \<Rightarrow>
              (Inr res, cache(key \<mapsto> \<lparr>result = res, expiry = now + timedelta 86400\<rparr>), w')))"

text \<open>
  A fetch function that counts its invocations, as in the specification's tests: the world
  carries a counter that every invocation increments, whether it returns or raises.
\<close>

definition counting :: "('v, 'e, 'r, 'w) pyfun \<Rightarrow> ('v, 'e, 'r, nat \<times> 'w) pyfun" where
  "counting f args kwargs = (\<lambda>(n, w).
     (case f args kwargs w of (out, w') \<Rightarrow> (out, (Suc n, w'))))"

text \<open>
  A sequence of calls of one wrapped function over its lifetime, each with its clock
  reading and arguments. The caller goes on after a call that raised.
\<close>

fun run_calls ::
  "('v, 'e, 'r, 'w) pyfun \<Rightarrow> (int \<times> 'v list \<times> (string \<times> 'v) list) list \<Rightarrow>
     ('v, 'r) cache \<Rightarrow> 'w \<Rightarrow> ('e exn + 'r) list \<times> ('v, 'r) cache \<times> 'w" where
  "run_calls function [] cache w = ([], cache, w)"
| "run_calls function ((now, args, kwargs) # calls) cache w =
     (case wrapper function now args kwargs cache w of
        (out, cache', w') \<Rightarrow>
          (case run_calls function calls cache' w' of
             (outs, cache'', w'') \<Rightarrow> (out # outs, cache'', w'')))"

text \<open>An entry is fresh at \<open>now\<close> when it is present and \<open>now >= expiry\<close> is false.\<close>

definition is_fresh :: "('v, 'r) cache \<Rightarrow> 'v cache_key \<Rightarrow> int \<Rightarrow> bool" where
  "is_fresh cache key now = (case cache key of None \<Rightarrow> False | Some e \<Rightarrow> now < expiry e)"

subsection \<open>The decorators and the closures they return\<close>

text \<open>
  Each decorator evaluates \<open>{}\<close>, which allocates a new dictionary object, and passes the
  reference to \<open>generate_wrapped_func\<close>; the closure returned captures the function and
  that reference. The store maps references to dictionaries; \<open>next_ref\<close> is the next
  reference the allocator hands out.
\<close>

record ('v, 'r, 'w) pystate =
  heap :: "nat \<Rightarrow> ('v, 'r) cache"
  next_ref :: nat
  world :: 'w

datatype ('v, 'e, 'r, 'w) closure =
  Closure (captured_function: "('v, 'e, 'r, 'w) pyfun") (captured_cache: nat)

definition new_dict :: "('v, 'r, 'w) pystate \<Rightarrow> nat \<times> ('v, 'r, 'w) pystate" where
  "new_dict st =
     (next_ref st,
      st\<lparr>heap := (heap st)(next_ref st := Map.empty), next_ref := Suc (next_ref st)\<rparr>)"

definition generate_wrapped_func ::
  "('v, 'e, 'r, 'w) pyfun \<Rightarrow> nat \<Rightarrow> ('v, 'e, 'r, 'w) closure" where
  "generate_wrapped_func function cache = Closure function cache"

definition commander_cache ::
  "('v, 'e, 'r, 'w) pyfun \<Rightarrow> ('v, 'r, 'w) pystate \<Rightarrow>
     ('v, 'e, 'r, 'w) closure \<times> ('v, 'r, 'w) pystate" where
  "commander_cache func st =
     (case new_dict st of (cmdr_cache, st') \<Rightarrow> (generate_wrapped_func func cmdr_cache, st'))"

definition card_detail_cache ::
  "('v, 'e, 'r, 'w) pyfun \<Rightarrow> ('v, 'r, 'w) pystate \<Rightarrow>
     ('v, 'e, 'r, 'w) closure \<times> ('v, 'r, 'w) pystate" where
  "card_detail_cache func st =
     (case new_dict st of (detail_cache, st') \<Rightarrow> (generate_wrapped_func func detail_cache, st'))"

definition combo_cache ::
  "('v, 'e, 'r, 'w) pyfun \<Rightarrow> ('v, 'r, 'w) pystate \<Rightarrow>
     ('v, 'e, 'r, 'w) closure \<times> ('v, 'r, 'w) pystate" where
  "combo_cache func st =
     (case new_dict st of (combo_cache', st') \<Rightarrow> (generate_wrapped_func func combo_cache', st'))"

definition average_deck_cache ::
  "('v, 'e, 'r, 'w) pyfun \<Rightarrow> ('v, 'r, 'w) pystate \<Rightarrow>
     ('v, 'e, 'r, 'w) closure \<times> ('v, 'r, 'w) pystate" where
  "average_deck_cache func st =
     (case new_dict st of (avg_deck_cache, st') \<Rightarrow> (generate_wrapped_func func avg_deck_cache, st'))"

definition deck_cache ::
  "('v, 'e, 'r, 'w) pyfun \<Rightarrow> ('v, 'r, 'w) pystate \<Rightarrow>
     ('v, 'e, 'r, 'w) closure \<times> ('v, 'r, 'w) pystate" where
  "deck_cache func st =
     (case new_dict st of (deck_cache', st') \<Rightarrow> (generate_wrapped_func func deck_cache', st'))"

definition decorators ::
  "(('v, 'e, 'r, 'w) pyfun \<Rightarrow> ('v, 'r, 'w) pystate \<Rightarrow>
      ('v, 'e, 'r, 'w) closure \<times> ('v, 'r, 'w) pystate) list" where
  "decorators =
     [commander_cache, card_detail_cache, combo_cache, average_deck_cache, deck_cache]"

text \<open>
  Calling a closure runs \<open>wrapper\<close> on the dictionary its captured reference points to;
  the assignments \<open>cache[cache_key] = ...\<close> mutate that object in place.
\<close>

definition call ::
  "('v, 'e, 'r, 'w) closure \<Rightarrow> int \<Rightarrow> 'v list \<Rightarrow> (string \<times> 'v) list \<Rightarrow>
     ('v, 'r, 'w) pystate \<Rightarrow> ('e exn + 'r) \<times> ('v, 'r, 'w) pystate" where
  "call c now args kwargs st =
     (case c of Closure function cache \<Rightarrow>
        (case wrapper function now args kwargs (heap st cache) (world st) of
           (out, cache', w') \<Rightarrow> (out, st\<lparr>heap := (heap st)(cache := cache'), world := w'\<rparr>)))"

text \<open>A program: calls of any closures, in sequence.\<close>

fun run_program ::
  "(('v, 'e, 'r, 'w) closure \<times> int \<times> 'v list \<times> (string \<times> 'v) list) list \<Rightarrow>
     ('v, 'r, 'w) pystate \<Rightarrow> ('e exn + 'r) list \<times> ('v, 'r, 'w) pystate" where
  "run_program [] st = ([], st)"
| "run_program ((c, now, args, kwargs) # calls) st =
     (case call c now args kwargs st of
        (out, st') \<Rightarrow>
          (case run_program calls st' of (outs, st'') \<Rightarrow> (out # outs, st'')))"

subsection \<open>Argument binding of \<open>EDHRec.get_commander_data\<close>\<close>

text \<open>
  The values the client passes: \<open>None\<close>, strings, and objects by identity (\<open>self\<close>).
\<close>

datatype pyval = PyNone | PyStr string | PyObj nat

text \<open>
  Python binds the arguments of a call to the parameters of a signature without
  \<open>*args\<close> or \<open>**kwargs\<close>: positional arguments fill the parameters in order, keyword
  arguments fill parameters by name, a parameter left unbound takes its default. The
  call raises \<open>TypeError\<close> (here \<open>None\<close>) on too many positional arguments, on a
  parameter given twice, on an unknown keyword, and on a missing argument without default.
  A signature is the list of parameter names with their defaults.
\<close>

fun bind_params ::
  "(string \<times> 'v option) list \<Rightarrow> 'v list \<Rightarrow> (string \<times> 'v) list \<Rightarrow> (string \<times> 'v) list option"
  where
  "bind_params [] [] kwargs = (if kwargs = [] then Some [] else None)"
| "bind_params [] (a # args) kwargs = None"
| "bind_params ((p, d) # params) (a # args) kwargs =
     (if p \<in> fst ` set kwargs then None
      else map_option ((#) (p, a)) (bind_params params args kwargs))"
| "bind_params ((p, d) # params) [] kwargs =
     (case map_of kwargs p of
        Some v \<Rightarrow>
          map_option ((#) (p, v)) (bind_params params [] (filter (\<lambda>kv. fst kv \<noteq> p) kwargs))
      | None \<Rightarrow>
          (case d of
             Some v \<Rightarrow> map_option ((#) (p, v)) (bind_params params [] kwargs)
           | None \<Rightarrow> None))"

text \<open>
  medhrec.py, line 249:
  \<open>def get_commander_data(self, card_name, bracket=None, tag=None, budget=None)\<close>.
\<close>

definition get_commander_data_signature :: "(string \<times> pyval option) list" where
  "get_commander_data_signature =
     [(''self'', None), (''card_name'', None), (''bracket'', Some PyNone),
      (''tag'', Some PyNone), (''budget'', Some PyNone)]"

section \<open>Properties\<close>

subsection \<open>The three paths of a call\<close>

lemma wrapper_miss:
  "cache (cache_key args kwargs) = None \<Longrightarrow>
   wrapper function now args kwargs cache w =
     (case function args kwargs w of
        (Inl x, w') \<Rightarrow> (Inl x, cache, w')
      | (Inr res, w') \<Rightarrow>
          (Inr res,
           cache(cache_key args kwargs \<mapsto> \<lparr>result = res, expiry = now + timedelta 86400\<rparr>),
           w'))"
  by (auto simp: wrapper_def Let_def split: prod.splits sum.splits)

lemma wrapper_stale:
  "cache (cache_key args kwargs) = Some old \<Longrightarrow> expiry old \<le> now \<Longrightarrow>
   wrapper function now args kwargs cache w =
     (case function args kwargs w of
        (Inl x, w') \<Rightarrow> (Inl x, cache, w')
      | (Inr res, w') \<Rightarrow>
          (Inr res,
           cache(cache_key args kwargs \<mapsto> \<lparr>result = res, expiry = now + timedelta 86400\<rparr>),
           w'))"
  by (auto simp: wrapper_def getitem_def Let_def split: prod.splits sum.splits)

lemma wrapper_fresh:
  "cache (cache_key args kwargs) = Some old \<Longrightarrow> now < expiry old \<Longrightarrow>
   wrapper function now args kwargs cache w = (Inr (result old), cache, w)"
  by (auto simp: wrapper_def getitem_def Let_def)

text \<open>With a counting function, a call that is not served from a fresh entry invokes it.\<close>

lemma counting_apply:
  "counting f args kwargs (n, w) = (fst (f args kwargs w), (Suc n, snd (f args kwargs w)))"
  by (simp add: counting_def split: prod.splits)

lemma wrapper_counting_invoked:
  "\<not> is_fresh cache (cache_key args kwargs) now \<Longrightarrow>
   wrapper (counting f) now args kwargs cache (n, w) =
     (case f args kwargs w of
        (Inl x, w') \<Rightarrow> (Inl x, cache, (Suc n, w'))
      | (Inr res, w') \<Rightarrow>
          (Inr res,
           cache(cache_key args kwargs \<mapsto> \<lparr>result = res, expiry = now + timedelta 86400\<rparr>),
           (Suc n, w')))"
  by (cases "cache (cache_key args kwargs)")
     (auto simp: is_fresh_def wrapper_miss wrapper_stale counting_apply
           split: prod.splits sum.splits)

subsection \<open>Hits, expiry and errors\<close>

text \<open>
  Claim C1 (idempotent cache hit). Take any function, arguments and cache in which the
  key has no fresh entry at time \<open>t1\<close> (for instance the empty cache of a newly wrapped
  function). If the call at \<open>t1\<close> returns \<open>r\<close>, then it invoked the function once and
  stored \<open>r\<close> with expiry \<open>t1\<close> plus 86400 seconds, and a second call with the same
  arguments at any time \<open>t2\<close> before that expiry returns the stored \<open>r\<close> and leaves the
  cache, the invocation counter and the world as they were: the function is not invoked
  again, so it is invoked exactly once across the two calls.
\<close>

theorem idempotent_cache_hit:
  assumes miss: "\<not> is_fresh cache (cache_key args kwargs) t1"
    and first: "wrapper (counting f) t1 args kwargs cache (n, w) = (Inr r, cache1, w1)"
    and soon: "t2 < t1 + timedelta 86400"
  shows "fst w1 = Suc n
       \<and> cache1 (cache_key args kwargs) = Some \<lparr>result = r, expiry = t1 + timedelta 86400\<rparr>
       \<and> wrapper (counting f) t2 args kwargs cache1 w1 = (Inr r, cache1, w1)"
proof -
  obtain out w' where f: "f args kwargs w = (out, w')"
    by (cases "f args kwargs w")
  from first miss f have out: "out = Inr r"
    and c1: "cache1 = cache(cache_key args kwargs \<mapsto> \<lparr>result = r, expiry = t1 + timedelta 86400\<rparr>)"
    and w1: "w1 = (Suc n, w')"
    by (auto simp: wrapper_counting_invoked split: sum.splits)
  have entry: "cache1 (cache_key args kwargs) = Some \<lparr>result = r, expiry = t1 + timedelta 86400\<rparr>"
    by (simp add: c1)
  from entry soon
  have "wrapper (counting f) t2 args kwargs cache1 w1 = (Inr r, cache1, w1)"
    by (simp add: wrapper_fresh)
  with entry w1 show ?thesis by simp
qed

theorem idempotent_cache_hit_witness:
  "\<not> is_fresh (Map.empty :: (string, string list) cache) (cache_key [''ana''] []) 0
   \<and> wrapper (counting (\<lambda>args kwargs w. (Inr args :: unit exn + string list, w)))
        0 [''ana''] [] Map.empty (0, ())
      = (Inr [''ana''],
         [cache_key [''ana''] [] \<mapsto> \<lparr>result = [''ana''], expiry = 86400000000\<rparr>], (1, ()))
   \<and> (86399999999 :: int) < 0 + timedelta 86400
   \<and> wrapper (counting (\<lambda>args kwargs w. (Inr args :: unit exn + string list, w)))
        86399999999 [''ana''] []
        [cache_key [''ana''] [] \<mapsto> \<lparr>result = [''ana''], expiry = 86400000000\<rparr>] (1, ())
      = (Inr [''ana''],
         [cache_key [''ana''] [] \<mapsto> \<lparr>result = [''ana''], expiry = 86400000000\<rparr>], (1, ()))"
proof -
  let ?f = "\<lambda>args kwargs w. (Inr args :: unit exn + string list, w :: unit)"
  let ?c1 = "[cache_key [''ana''] [] \<mapsto> \<lparr>result = [''ana''], expiry = 86400000000\<rparr>]"
  have miss: "\<not> is_fresh (Map.empty :: (string, string list) cache) (cache_key [''ana''] []) 0"
    by (simp add: is_fresh_def)
  have first: "wrapper (counting ?f) 0 [''ana''] [] Map.empty (0, ()) = (Inr [''ana''], ?c1, (1, ()))"
    by (simp add: wrapper_def counting_def timedelta_def Let_def)
  have soon: "(86399999999 :: int) < 0 + timedelta 86400"
    by (simp add: timedelta_def)
  from idempotent_cache_hit [OF miss first soon] miss first soon show ?thesis
    by simp
qed

text \<open>
  Claim C2 (expiry triggers refetch, boundary at \<open>now >= expiry\<close>). For a key present in
  the cache with entry \<open>old\<close>: when \<open>now >= expiry old\<close> the function is invoked (the
  counter goes up by one), and if it returns \<open>res\<close> the entry is overwritten with
  \<open>res\<close> and the expiry \<open>now\<close> plus 86400 seconds and \<open>res\<close> is returned; when
  \<open>now < expiry old\<close> the stored result is returned and neither the counter, the world
  nor the cache changes, so the function is not invoked.
\<close>

theorem expiry_triggers_refetch:
  assumes present: "cache (cache_key args kwargs) = Some old"
  shows "wrapper (counting f) now args kwargs cache (n, w) =
     (if now \<ge> expiry old then
        (case f args kwargs w of
           (Inl x, w') \<Rightarrow> (Inl x, cache, (Suc n, w'))
         | (Inr res, w') \<Rightarrow>
             (Inr res,
              cache(cache_key args kwargs \<mapsto> \<lparr>result = res, expiry = now + timedelta 86400\<rparr>),
              (Suc n, w')))
      else (Inr (result old), cache, (n, w)))"
proof (cases "now \<ge> expiry old")
  case True
  with present have "\<not> is_fresh cache (cache_key args kwargs) now"
    by (simp add: is_fresh_def)
  with True show ?thesis by (simp add: wrapper_counting_invoked)
next
  case False
  with present show ?thesis by (simp add: wrapper_fresh)
qed

theorem expiry_triggers_refetch_witness:
  "[cache_key [''ana''] [] \<mapsto> \<lparr>result = 1 :: nat, expiry = 100\<rparr>] (cache_key [''ana''] [])
     = Some \<lparr>result = 1, expiry = 100\<rparr>
   \<and> wrapper (counting (\<lambda>args kwargs w. (Inr (Suc w) :: unit exn + nat, Suc w)))
        100 [''ana''] [] [cache_key [''ana''] [] \<mapsto> \<lparr>result = 1, expiry = 100\<rparr>] (1, 1)
      = (Inr 2, [cache_key [''ana''] [] \<mapsto> \<lparr>result = 2, expiry = 86400000100\<rparr>], (2, 2))
   \<and> wrapper (counting (\<lambda>args kwargs w. (Inr (Suc w) :: unit exn + nat, Suc w)))
        99 [''ana''] [] [cache_key [''ana''] [] \<mapsto> \<lparr>result = 1, expiry = 100\<rparr>] (1, 1)
      = (Inr 1, [cache_key [''ana''] [] \<mapsto> \<lparr>result = 1, expiry = 100\<rparr>], (1, 1))"
proof -
  let ?f = "\<lambda>(args :: string list) (kwargs :: (string \<times> string) list) w.
              (Inr (Suc w) :: unit exn + nat, Suc w)"
  let ?c = "[cache_key [''ana''] [] \<mapsto> \<lparr>result = 1 :: nat, expiry = 100\<rparr>]"
  have present: "?c (cache_key [''ana''] []) = Some \<lparr>result = 1, expiry = 100\<rparr>"
    by simp
  note stale = expiry_triggers_refetch
    [where cache = ?c and args = "[''ana'']" and kwargs = "[]" and now = 100 and f = ?f
       and n = 1 and w = 1 and old = "\<lparr>result = 1, expiry = 100\<rparr>"]
  note fresh = expiry_triggers_refetch
    [where cache = ?c and args = "[''ana'']" and kwargs = "[]" and now = 99 and f = ?f
       and n = 1 and w = 1 and old = "\<lparr>result = 1, expiry = 100\<rparr>"]
  from stale fresh present show ?thesis
    by (simp add: timedelta_def numeral_2_eq_2)
qed

text \<open>
  Claim C3 (mutate then re-read). The source overwrites the entry and then returns the
  value read back from the cache; \<open>wrapper_direct\<close> returns the computed result
  directly. The two agree on every input, in outcome, cache and world; in particular the
  read-back never raises \<open>KeyError\<close> and yields the result just computed.
\<close>

theorem mutate_then_reread:
  "wrapper function now args kwargs cache w = wrapper_direct function now args kwargs cache w"
  by (auto simp: wrapper_def wrapper_direct_def getitem_def Let_def
           split: option.splits sum.splits prod.splits)

text \<open>
  Claim C4 (error atomicity, verbatim propagation). If a call reaches the function (the
  key has no fresh entry) and the function raises \<open>x\<close>, the wrapper raises the same
  \<open>x\<close>, the cache is exactly the one before the call, and the function was invoked once.
  A later call with the same key (the same positional arguments, the keyword arguments in
  any order that gives the key), at a time not before the first, invokes the function
  again: the counter reaches two.
\<close>

theorem error_not_memoized:
  assumes invoked: "\<not> is_fresh cache (cache_key args kwargs) t1"
    and raises: "f args kwargs w = (Inl x, w')"
    and later: "t1 \<le> t2"
    and same_key: "cache_key args kwargs' = cache_key args kwargs"
  shows "wrapper (counting f) t1 args kwargs cache (n, w) = (Inl x, cache, (Suc n, w'))
       \<and> fst (snd (snd (wrapper (counting f) t2 args kwargs' cache (Suc n, w')))) = Suc (Suc n)"
proof -
  from invoked later same_key have "\<not> is_fresh cache (cache_key args kwargs') t2"
    by (auto simp: is_fresh_def split: option.splits)
  then have "fst (snd (snd (wrapper (counting f) t2 args kwargs' cache (Suc n, w')))) = Suc (Suc n)"
    by (simp add: wrapper_counting_invoked split: prod.splits sum.splits)
  with invoked raises show ?thesis
    by (simp add: wrapper_counting_invoked)
qed

theorem error_not_memoized_witness:
  "\<not> is_fresh [cache_key [''ana''] [(''tag'', ''y''), (''bracket'', ''x'')]
                  \<mapsto> \<lparr>result = 0 :: nat, expiry = 5\<rparr>]
         (cache_key [''ana''] [(''tag'', ''y''), (''bracket'', ''x'')]) 5
   \<and> ((\<lambda>args kwargs w. (Inl (Exn ''not found''), Suc w)) :: (string, string, nat, nat) pyfun)
        [''ana''] [(''tag'', ''y''), (''bracket'', ''x'')] 7
       = (Inl (Exn ''not found''), 8)
   \<and> (5 :: int) \<le> 6
   \<and> cache_key [''ana''] [(''bracket'', ''x''), (''tag'', ''y'')]
       = cache_key [''ana''] [(''tag'', ''y''), (''bracket'', ''x'')]
   \<and> wrapper (counting
          ((\<lambda>args kwargs w. (Inl (Exn ''not found''), Suc w)) :: (string, string, nat, nat) pyfun))
        5 [''ana''] [(''tag'', ''y''), (''bracket'', ''x'')]
        [cache_key [''ana''] [(''tag'', ''y''), (''bracket'', ''x'')]
           \<mapsto> \<lparr>result = 0, expiry = 5\<rparr>] (0, 7)
      = (Inl (Exn ''not found''),
         [cache_key [''ana''] [(''tag'', ''y''), (''bracket'', ''x'')]
           \<mapsto> \<lparr>result = 0, expiry = 5\<rparr>], (1, 8))
   \<and> fst (snd (snd (wrapper (counting
          ((\<lambda>args kwargs w. (Inl (Exn ''not found''), Suc w)) :: (string, string, nat, nat) pyfun))
        6 [''ana''] [(''bracket'', ''x''), (''tag'', ''y'')]
        [cache_key [''ana''] [(''tag'', ''y''), (''bracket'', ''x'')]
           \<mapsto> \<lparr>result = 0, expiry = 5\<rparr>] (1, 8)))) = 2"
proof -
  let ?f = "(\<lambda>args kwargs w. (Inl (Exn ''not found''), Suc w)) :: (string, string, nat, nat) pyfun"
  let ?kw = "[(''tag'', ''y''), (''bracket'', ''x'')]"
  let ?kw' = "[(''bracket'', ''x''), (''tag'', ''y'')]"
  let ?c = "[cache_key [''ana''] ?kw \<mapsto> \<lparr>result = 0 :: nat, expiry = 5\<rparr>]"
  have invoked: "\<not> is_fresh ?c (cache_key [''ana''] ?kw) 5"
    by (simp add: is_fresh_def)
  have raises: "?f [''ana''] ?kw 7 = (Inl (Exn ''not found''), 8)"
    by simp
  have later: "(5 :: int) \<le> 6"
    by simp
  have same_key: "cache_key [''ana''] ?kw' = cache_key [''ana''] ?kw"
    by (simp add: cache_key_def sorted_items_def)
  note again = error_not_memoized
    [where cache = ?c and args = "[''ana'']" and kwargs = ?kw and kwargs' = ?kw' and f = ?f
       and ?t1.0 = 5 and ?t2.0 = 6 and w = 7 and w' = 8 and x = "Exn ''not found''" and n = 0]
  from again [OF invoked raises later same_key] invoked raises later same_key show ?thesis
    by (simp add: numeral_2_eq_2)
qed

subsection \<open>Key derivation\<close>

lemma wrapper_counting_le:
  "fst (snd (snd (wrapper (counting f) now args kwargs cache (n, w)))) \<le> Suc n"
proof (cases "is_fresh cache (cache_key args kwargs) now")
  case True
  then obtain old where "cache (cache_key args kwargs) = Some old" and "now < expiry old"
    by (auto simp: is_fresh_def split: option.splits)
  then show ?thesis by (simp add: wrapper_fresh)
next
  case False
  then show ?thesis
    by (simp add: wrapper_counting_invoked split: prod.splits sum.splits)
qed

lemma wrapper_served_fresh:
  assumes "is_fresh cache (cache_key args kwargs) now"
  shows "wrapper function now args kwargs cache w =
           (Inr (result (the (cache (cache_key args kwargs)))), cache, w)"
proof -
  from assms obtain old where "cache (cache_key args kwargs) = Some old" and "now < expiry old"
    by (auto simp: is_fresh_def split: option.splits)
  then show ?thesis by (simp add: wrapper_fresh)
qed

lemma wrapper_counting_returned:
  assumes "\<not> is_fresh cache (cache_key args kwargs) now"
    and "wrapper (counting f) now args kwargs cache (n, w) = (Inr r, cache1, w1)"
  shows "cache1 = cache(cache_key args kwargs \<mapsto> \<lparr>result = r, expiry = now + timedelta 86400\<rparr>)"
    and "fst w1 = Suc n"
    and "f args kwargs w = (Inr r, snd w1)"
proof -
  obtain out w' where f: "f args kwargs w = (out, w')"
    by (cases "f args kwargs w")
  from assms(1) f
  have run: "wrapper (counting f) now args kwargs cache (n, w) =
     (case out of
        Inl x \<Rightarrow> (Inl x, cache, (Suc n, w'))
      | Inr res \<Rightarrow>
          (Inr res,
           cache(cache_key args kwargs \<mapsto> \<lparr>result = res, expiry = now + timedelta 86400\<rparr>),
           (Suc n, w')))"
    by (simp add: wrapper_counting_invoked split: sum.splits)
  from assms(2) run obtain res where out: "out = Inr res"
    by (cases out) simp_all
  from assms(2) run out have "r = res"
    and c: "cache1 = cache(cache_key args kwargs \<mapsto> \<lparr>result = res, expiry = now + timedelta 86400\<rparr>)"
    and w: "w1 = (Suc n, w')"
    by auto
  then show "cache1 = cache(cache_key args kwargs \<mapsto> \<lparr>result = r, expiry = now + timedelta 86400\<rparr>)"
    and "fst w1 = Suc n" and "f args kwargs w = (Inr r, snd w1)"
    using f out by simp_all
qed

lemma sorted_items_order_invariant:
  assumes "distinct (map fst kw1)" and "distinct (map fst kw2)" and "set kw1 = set kw2"
  shows "sorted_items kw1 = sorted_items kw2"
proof -
  from assms(1,2) have "distinct kw1" and "distinct kw2"
    by (simp_all add: distinct_map)
  with assms(3) have "mset kw1 = mset kw2"
    by (simp add: set_eq_iff_mset_eq_distinct)
  moreover from assms(1) have "inj_on fst (set kw1)"
    by (simp add: distinct_map)
  ultimately show ?thesis
    unfolding sorted_items_def by (rule sort_key_eq_sort_key)
qed

text \<open>
  Claim C5 (keyword-order invariance). Two keyword dictionaries with the same bindings,
  supplied in any order, give the same cache key for the same positional arguments. So
  when a call with the first order returns normally at \<open>t1\<close>, a call with the second
  order before \<open>t1\<close> plus 86400 seconds leaves the invocation count at most one above
  its value before the first call; and when the first call invoked the function, the
  second is served the stored result with nothing changed.
\<close>

theorem keyword_order_invariance:
  assumes names1: "distinct (map fst kw1)"
    and names2: "distinct (map fst kw2)"
    and same: "set kw1 = set kw2"
    and first: "wrapper (counting f) t1 args kw1 cache (n, w) = (Inr r, cache1, w1)"
    and soon: "t2 < t1 + timedelta 86400"
  shows "cache_key args kw1 = cache_key args kw2
       \<and> fst (snd (snd (wrapper (counting f) t2 args kw2 cache1 w1))) \<le> Suc n
       \<and> (\<not> is_fresh cache (cache_key args kw1) t1 \<longrightarrow>
            wrapper (counting f) t2 args kw2 cache1 w1 = (Inr r, cache1, w1))"
proof -
  have key: "cache_key args kw1 = cache_key args kw2"
    using sorted_items_order_invariant [OF names1 names2 same] by (simp add: cache_key_def)
  show ?thesis
  proof (cases "is_fresh cache (cache_key args kw1) t1")
    case True
    from first have "cache1 = cache" and "w1 = (n, w)"
      by (simp_all add: wrapper_served_fresh [OF True])
    then have "fst (snd (snd (wrapper (counting f) t2 args kw2 cache1 w1))) \<le> Suc n"
      by (simp add: wrapper_counting_le)
    with key True show ?thesis by simp
  next
    case False
    note ret = wrapper_counting_returned [OF False first]
    from ret(1) key
    have "cache1 (cache_key args kw2) = Some \<lparr>result = r, expiry = t1 + timedelta 86400\<rparr>"
      by simp
    with soon have hit: "wrapper (counting f) t2 args kw2 cache1 w1 = (Inr r, cache1, w1)"
      by (simp add: wrapper_fresh)
    from hit ret(2) key show ?thesis by simp
  qed
qed

theorem keyword_order_invariance_witness:
  "distinct (map fst [(''bracket'', ''x''), (''tag'', ''y'')])
   \<and> distinct (map fst [(''tag'', ''y''), (''bracket'', ''x'')])
   \<and> set [(''bracket'', ''x''), (''tag'', ''y'')] = set [(''tag'', ''y''), (''bracket'', ''x'')]
   \<and> (1 :: int) < 0 + timedelta 86400
   \<and> cache_key [''a''] [(''bracket'', ''x''), (''tag'', ''y'')]
       = cache_key [''a''] [(''tag'', ''y''), (''bracket'', ''x'')]
   \<and> wrapper (counting (\<lambda>args kwargs w. (Inr (map fst kwargs) :: unit exn + string list, w)))
        0 [''a''] [(''bracket'', ''x''), (''tag'', ''y'')] Map.empty (0, ())
      = (Inr [''bracket'', ''tag''],
         [cache_key [''a''] [(''bracket'', ''x''), (''tag'', ''y'')]
            \<mapsto> \<lparr>result = [''bracket'', ''tag''], expiry = 86400000000\<rparr>], (1, ()))
   \<and> wrapper (counting (\<lambda>args kwargs w. (Inr (map fst kwargs) :: unit exn + string list, w)))
        1 [''a''] [(''tag'', ''y''), (''bracket'', ''x'')]
        [cache_key [''a''] [(''bracket'', ''x''), (''tag'', ''y'')]
            \<mapsto> \<lparr>result = [''bracket'', ''tag''], expiry = 86400000000\<rparr>] (1, ())
      = (Inr [''bracket'', ''tag''],
         [cache_key [''a''] [(''bracket'', ''x''), (''tag'', ''y'')]
            \<mapsto> \<lparr>result = [''bracket'', ''tag''], expiry = 86400000000\<rparr>], (1, ()))"
proof -
  let ?f = "\<lambda>(args :: string list) (kwargs :: (string \<times> string) list) (w :: unit).
              (Inr (map fst kwargs) :: unit exn + string list, w)"
  let ?kw1 = "[(''bracket'', ''x''), (''tag'', ''y'')]"
  let ?kw2 = "[(''tag'', ''y''), (''bracket'', ''x'')]"
  let ?c1 = "[cache_key [''a''] ?kw1 \<mapsto> \<lparr>result = [''bracket'', ''tag''], expiry = 86400000000\<rparr>]"
  have names1: "distinct (map fst ?kw1)" and names2: "distinct (map fst ?kw2)"
    by simp_all
  have same: "set ?kw1 = set ?kw2"
    by auto
  have first: "wrapper (counting ?f) 0 [''a''] ?kw1 Map.empty (0, ()) = (Inr [''bracket'', ''tag''], ?c1, (1, ()))"
    by (simp add: wrapper_def counting_def timedelta_def Let_def)
  have soon: "(1 :: int) < 0 + timedelta 86400"
    by (simp add: timedelta_def)
  have miss: "\<not> is_fresh (Map.empty :: (string, string list) cache) (cache_key [''a''] ?kw1) 0"
    by (simp add: is_fresh_def)
  from keyword_order_invariance [OF names1 names2 same first soon] miss
  have "cache_key [''a''] ?kw1 = cache_key [''a''] ?kw2
      \<and> wrapper (counting ?f) 1 [''a''] ?kw2 ?c1 (1, ()) = (Inr [''bracket'', ''tag''], ?c1, (1, ()))"
    by blast
  with names1 names2 same soon first show ?thesis
    by blast
qed

text \<open>
  Claim C6 (argument sensitivity). Different positional argument tuples give different
  keys, whatever the keyword arguments. When neither key is in the cache, the two calls
  each invoke the function (the counter goes up by two), and afterwards each key holds its
  own entry, with its own result and expiry, when its call returned (and no entry when
  its call raised): the second call does not touch the first entry.
\<close>

theorem argument_sensitivity:
  assumes differ: "args1 \<noteq> args2"
    and new1: "cache (cache_key args1 kw1) = None"
    and new2: "cache (cache_key args2 kw2) = None"
    and first: "wrapper (counting f) t1 args1 kw1 cache (n, w) = (out1, cache1, w1)"
    and second: "wrapper (counting f) t2 args2 kw2 cache1 w1 = (out2, cache2, w2)"
  shows "cache_key args1 kw1 \<noteq> cache_key args2 kw2
       \<and> fst w1 = Suc n \<and> fst w2 = Suc (Suc n)
       \<and> cache2 (cache_key args1 kw1) =
           (case out1 of Inl x \<Rightarrow> None
            | Inr r \<Rightarrow> Some \<lparr>result = r, expiry = t1 + timedelta 86400\<rparr>)
       \<and> cache2 (cache_key args2 kw2) =
           (case out2 of Inl x \<Rightarrow> None
            | Inr r \<Rightarrow> Some \<lparr>result = r, expiry = t2 + timedelta 86400\<rparr>)"
proof -
  let ?k1 = "cache_key args1 kw1" and ?k2 = "cache_key args2 kw2"
  have key: "?k1 \<noteq> ?k2"
    using differ by (simp add: cache_key_def)
  obtain o1 v1 where f1: "f args1 kw1 w = (o1, v1)"
    by (cases "f args1 kw1 w")
  from new1 have "\<not> is_fresh cache ?k1 t1"
    by (simp add: is_fresh_def)
  with f1 have "wrapper (counting f) t1 args1 kw1 cache (n, w) =
     (case o1 of
        Inl x \<Rightarrow> (Inl x, cache, (Suc n, v1))
      | Inr res \<Rightarrow>
          (Inr res, cache(?k1 \<mapsto> \<lparr>result = res, expiry = t1 + timedelta 86400\<rparr>), (Suc n, v1)))"
    by (simp add: wrapper_counting_invoked split: sum.splits)
  with first have w1: "w1 = (Suc n, v1)" and out1: "out1 = o1"
    and c1: "cache1 = (case o1 of Inl x \<Rightarrow> cache
               | Inr res \<Rightarrow> cache(?k1 \<mapsto> \<lparr>result = res, expiry = t1 + timedelta 86400\<rparr>))"
    by (cases o1; auto)+
  from c1 new2 key have absent2: "cache1 ?k2 = None"
    by (cases o1) auto
  from c1 new1 out1 have e1: "cache1 ?k1 =
      (case out1 of Inl x \<Rightarrow> None | Inr r \<Rightarrow> Some \<lparr>result = r, expiry = t1 + timedelta 86400\<rparr>)"
    by (cases o1) auto
  obtain o2 v2 where f2: "f args2 kw2 v1 = (o2, v2)"
    by (cases "f args2 kw2 v1")
  from absent2 have "\<not> is_fresh cache1 ?k2 t2"
    by (simp add: is_fresh_def)
  with f2 have "wrapper (counting f) t2 args2 kw2 cache1 (Suc n, v1) =
     (case o2 of
        Inl x \<Rightarrow> (Inl x, cache1, (Suc (Suc n), v2))
      | Inr res \<Rightarrow>
          (Inr res, cache1(?k2 \<mapsto> \<lparr>result = res, expiry = t2 + timedelta 86400\<rparr>),
           (Suc (Suc n), v2)))"
    by (simp add: wrapper_counting_invoked split: sum.splits)
  with second w1 have w2: "w2 = (Suc (Suc n), v2)" and out2: "out2 = o2"
    and c2: "cache2 = (case o2 of Inl x \<Rightarrow> cache1
               | Inr res \<Rightarrow> cache1(?k2 \<mapsto> \<lparr>result = res, expiry = t2 + timedelta 86400\<rparr>))"
    by (cases o2; auto)+
  from c2 key have keep: "cache2 ?k1 = cache1 ?k1"
    by (cases o2) auto
  from c2 absent2 out2 have e2: "cache2 ?k2 =
      (case out2 of Inl x \<Rightarrow> None | Inr r \<Rightarrow> Some \<lparr>result = r, expiry = t2 + timedelta 86400\<rparr>)"
    by (cases o2) auto
  from key w1 w2 e1 e2 keep show ?thesis by simp
qed

theorem argument_sensitivity_witness:
  "[''cardA''] \<noteq> [''cardB'']
   \<and> (Map.empty :: (string, string list) cache) (cache_key [''cardA''] []) = None
   \<and> (Map.empty :: (string, string list) cache) (cache_key [''cardB''] []) = None
   \<and> wrapper (counting (\<lambda>args kwargs w. (Inr args :: unit exn + string list, w)))
        0 [''cardA''] [] Map.empty (0, ())
      = (Inr [''cardA''],
         [cache_key [''cardA''] [] \<mapsto> \<lparr>result = [''cardA''], expiry = 86400000000\<rparr>],
         (1, ()))
   \<and> wrapper (counting (\<lambda>args kwargs w. (Inr args :: unit exn + string list, w)))
        0 [''cardB''] []
        [cache_key [''cardA''] [] \<mapsto> \<lparr>result = [''cardA''], expiry = 86400000000\<rparr>]
        (1, ())
      = (Inr [''cardB''],
         [cache_key [''cardA''] [] \<mapsto> \<lparr>result = [''cardA''], expiry = 86400000000\<rparr>,
          cache_key [''cardB''] [] \<mapsto> \<lparr>result = [''cardB''], expiry = 86400000000\<rparr>],
         (2, ()))
   \<and> cache_key [''cardA''] [] \<noteq> cache_key [''cardB''] ([] :: (string \<times> string) list)"
proof -
  let ?f = "\<lambda>(args :: string list) (kwargs :: (string \<times> string) list) (w :: unit).
              (Inr args :: unit exn + string list, w)"
  let ?c1 = "[cache_key [''cardA''] [] \<mapsto> \<lparr>result = [''cardA''], expiry = 86400000000\<rparr>]"
  let ?c2 = "?c1(cache_key [''cardB''] [] \<mapsto> \<lparr>result = [''cardB''], expiry = 86400000000\<rparr>)"
  have differ: "[''cardA''] \<noteq> [''cardB'']"
    by simp
  have new1: "(Map.empty :: (string, string list) cache) (cache_key [''cardA''] []) = None"
    and new2: "(Map.empty :: (string, string list) cache) (cache_key [''cardB''] []) = None"
    by simp_all
  have first: "wrapper (counting ?f) 0 [''cardA''] [] Map.empty (0, ()) =
      (Inr [''cardA''], ?c1, (1, ()))"
    by (simp add: wrapper_def counting_def timedelta_def Let_def)
  have second: "wrapper (counting ?f) 0 [''cardB''] [] ?c1 (1, ()) =
      (Inr [''cardB''], ?c2, (2, ()))"
    by (simp add: wrapper_def counting_def timedelta_def cache_key_def sorted_items_def Let_def)
  from argument_sensitivity [OF differ new1 new2 first second]
  have "cache_key [''cardA''] [] \<noteq> cache_key [''cardB''] ([] :: (string \<times> string) list)"
    by blast
  with differ new1 new2 first second show ?thesis
    by blast
qed

subsection \<open>What a call writes\<close>

lemma wrapper_cache_cases:
  "fst (snd (wrapper function now args kwargs cache w)) = cache
   \<or> (\<exists>res. fst (wrapper function now args kwargs cache w) = Inr res
         \<and> \<not> is_fresh cache (cache_key args kwargs) now
         \<and> fst (snd (wrapper function now args kwargs cache w)) =
             cache(cache_key args kwargs \<mapsto> \<lparr>result = res, expiry = now + timedelta 86400\<rparr>))"
proof (cases "cache (cache_key args kwargs)")
  case None
  then show ?thesis
    by (simp add: wrapper_miss is_fresh_def split: prod.splits sum.splits)
next
  case (Some old)
  show ?thesis
  proof (cases "expiry old \<le> now")
    case True
    with Some show ?thesis
      by (simp add: wrapper_stale is_fresh_def split: prod.splits sum.splits)
  next
    case False
    with Some show ?thesis
      by (simp add: wrapper_fresh)
  qed
qed

lemma wrapper_stores_result:
  assumes "\<not> is_fresh cache (cache_key args kwargs) now"
    and "wrapper function now args kwargs cache w = (Inr res, cache', w')"
  shows "cache' = cache(cache_key args kwargs \<mapsto> \<lparr>result = res, expiry = now + timedelta 86400\<rparr>)"
proof -
  obtain out v where f: "function args kwargs w = (out, v)"
    by (cases "function args kwargs w")
  have "wrapper function now args kwargs cache w =
     (case out of
        Inl x \<Rightarrow> (Inl x, cache, v)
      | Inr r \<Rightarrow>
          (Inr r, cache(cache_key args kwargs \<mapsto> \<lparr>result = r, expiry = now + timedelta 86400\<rparr>), v))"
  proof (cases "cache (cache_key args kwargs)")
    case None
    with f show ?thesis by (simp add: wrapper_miss split: sum.splits)
  next
    case (Some old)
    with assms(1) have "expiry old \<le> now"
      by (simp add: is_fresh_def)
    with Some f show ?thesis by (simp add: wrapper_stale split: sum.splits)
  qed
  with assms(2) show ?thesis
    by (cases out) auto
qed

text \<open>
  Claim C8 (fixed TTL of 86400 seconds). In any call, every cache entry that differs
  after the call is the entry of the call's own key and holds the call's result with
  expiry exactly \<open>now\<close> plus 86400 seconds (86400000000 microseconds); and every call
  that invokes the function and returns, on a miss as on an expired entry, stores such an
  entry. The function, the arguments and the keyword arguments are arbitrary and none of
  them changes the constant.
\<close>

theorem fixed_ttl:
  assumes call: "wrapper function now args kwargs cache w = (out, cache', w')"
  shows "(\<forall>k. cache' k \<noteq> cache k \<longrightarrow>
            k = cache_key args kwargs
            \<and> (\<exists>res. out = Inr res
                  \<and> cache' k = Some \<lparr>result = res, expiry = now + timedelta 86400\<rparr>))
       \<and> (\<forall>res. out = Inr res \<and> \<not> is_fresh cache (cache_key args kwargs) now \<longrightarrow>
            cache' (cache_key args kwargs) =
              Some \<lparr>result = res, expiry = now + timedelta 86400\<rparr>)
       \<and> timedelta 86400 = 86400000000"
proof -
  from wrapper_cache_cases [of "function" now args kwargs cache w] call
  have cases: "cache' = cache
     \<or> (\<exists>res. out = Inr res
           \<and> cache' = cache(cache_key args kwargs \<mapsto> \<lparr>result = res, expiry = now + timedelta 86400\<rparr>))"
    by auto
  have written: "\<forall>k. cache' k \<noteq> cache k \<longrightarrow>
            k = cache_key args kwargs
            \<and> (\<exists>res. out = Inr res
                  \<and> cache' k = Some \<lparr>result = res, expiry = now + timedelta 86400\<rparr>)"
    using cases by (auto split: if_splits)
  have stored: "\<forall>res. out = Inr res \<and> \<not> is_fresh cache (cache_key args kwargs) now \<longrightarrow>
            cache' (cache_key args kwargs) =
              Some \<lparr>result = res, expiry = now + timedelta 86400\<rparr>"
    using call by (auto dest: wrapper_stores_result)
  from written stored show ?thesis
    by (simp add: timedelta_def)
qed

theorem fixed_ttl_witness:
  "wrapper (\<lambda>args kwargs w. (Inr args :: unit exn + string list, w))
        1000000 [''ana''] [(''ttl'', ''5'')] Map.empty ()
      = (Inr [''ana''],
         [cache_key [''ana''] [(''ttl'', ''5'')]
            \<mapsto> \<lparr>result = [''ana''], expiry = 86401000000\<rparr>], ())
   \<and> \<not> is_fresh (Map.empty :: (string, string list) cache)
         (cache_key [''ana''] [(''ttl'', ''5'')]) 1000000
   \<and> [cache_key [''ana''] [(''ttl'', ''5'')]
            \<mapsto> \<lparr>result = [''ana''], expiry = 86401000000\<rparr>]
         (cache_key [''ana''] [(''ttl'', ''5'')])
       = Some \<lparr>result = [''ana''], expiry = 1000000 + timedelta 86400\<rparr>"
proof -
  let ?f = "\<lambda>(args :: string list) (kwargs :: (string \<times> string) list) (w :: unit).
              (Inr args :: unit exn + string list, w)"
  let ?k = "cache_key [''ana''] [(''ttl'', ''5'')]"
  let ?c1 = "[?k \<mapsto> \<lparr>result = [''ana''], expiry = 86401000000\<rparr>]"
  have call: "wrapper ?f 1000000 [''ana''] [(''ttl'', ''5'')] Map.empty () =
      (Inr [''ana''], ?c1, ())"
    by (simp add: wrapper_def timedelta_def Let_def)
  have miss: "\<not> is_fresh (Map.empty :: (string, string list) cache) ?k 1000000"
    by (simp add: is_fresh_def)
  from fixed_ttl [OF call] miss
  have "?c1 ?k = Some \<lparr>result = [''ana''], expiry = 1000000 + timedelta 86400\<rparr>"
    by blast
  with call miss show ?thesis
    by blast
qed

lemma wrapper_frame:
  "k \<noteq> cache_key args kwargs \<Longrightarrow>
   fst (snd (wrapper function now args kwargs cache w)) k = cache k"
  using wrapper_cache_cases [of "function" now args kwargs cache w] by auto

lemma wrapper_dom_mono:
  "dom cache \<subseteq> dom (fst (snd (wrapper function now args kwargs cache w)))"
  using wrapper_cache_cases [of "function" now args kwargs cache w] by auto

lemma run_calls_dom_mono:
  "dom cache \<subseteq> dom (fst (snd (run_calls function calls cache w)))"
proof (induction calls arbitrary: cache w)
  case Nil
  show ?case by simp
next
  case (Cons c calls)
  obtain now args kwargs where c: "c = (now, args, kwargs)"
    by (cases c)
  obtain out cache' w' where step: "wrapper function now args kwargs cache w = (out, cache', w')"
    by (cases "wrapper function now args kwargs cache w")
  from wrapper_dom_mono [of cache "function" now args kwargs w] step
  have "dom cache \<subseteq> dom cache'"
    by simp
  also have "dom cache' \<subseteq> dom (fst (snd (run_calls function calls cache' w')))"
    by (rule Cons.IH)
  finally show ?case
    using c step by (auto split: prod.splits)
qed

text \<open>
  Claim C9 (frame condition). A call leaves the entry of every key other than its own
  exactly as it was and removes no key; over any sequence of calls the set of keys present
  only grows.
\<close>

theorem frame_condition:
  assumes call: "wrapper function now args kwargs cache w = (out, cache', w')"
  shows "(\<forall>k. k \<noteq> cache_key args kwargs \<longrightarrow> cache' k = cache k)
       \<and> dom cache \<subseteq> dom cache'
       \<and> dom cache \<subseteq> dom (fst (snd (run_calls function calls cache w)))"
proof -
  from call wrapper_frame [of _ args kwargs "function" now cache w]
  have "\<forall>k. k \<noteq> cache_key args kwargs \<longrightarrow> cache' k = cache k"
    by simp
  moreover from call wrapper_dom_mono [of cache "function" now args kwargs w]
  have "dom cache \<subseteq> dom cache'"
    by simp
  ultimately show ?thesis
    using run_calls_dom_mono [of cache "function" calls w] by simp
qed

theorem frame_condition_witness:
  "wrapper (\<lambda>args kwargs w. (Inr args :: unit exn + string list, w))
        5 [''ana''] []
        [cache_key [''bob''] [] \<mapsto> \<lparr>result = [''old''], expiry = 3\<rparr>] ()
      = (Inr [''ana''],
         [cache_key [''bob''] [] \<mapsto> \<lparr>result = [''old''], expiry = 3\<rparr>,
          cache_key [''ana''] [] \<mapsto> \<lparr>result = [''ana''], expiry = 86400000005\<rparr>], ())
   \<and> cache_key [''bob''] [] \<noteq> cache_key [''ana''] ([] :: (string \<times> string) list)
   \<and> [cache_key [''bob''] [] \<mapsto> \<lparr>result = [''old''], expiry = 3\<rparr>,
        cache_key [''ana''] [] \<mapsto> \<lparr>result = [''ana''], expiry = 86400000005\<rparr>]
         (cache_key [''bob''] [])
       = [cache_key [''bob''] ([] :: (string \<times> string) list)
            \<mapsto> \<lparr>result = [''old''], expiry = 3\<rparr>] (cache_key [''bob''] [])
   \<and> dom [cache_key [''bob''] ([] :: (string \<times> string) list)
            \<mapsto> \<lparr>result = [''old''], expiry = 3\<rparr>]
       \<subseteq> dom (fst (snd (run_calls
             (\<lambda>args kwargs w. (Inr args :: unit exn + string list, w))
             [(5, [''ana''], []), (6, [''bob''], [])]
             [cache_key [''bob''] [] \<mapsto> \<lparr>result = [''old''], expiry = 3\<rparr>] ())))"
proof -
  let ?f = "\<lambda>(args :: string list) (kwargs :: (string \<times> string) list) (w :: unit).
              (Inr args :: unit exn + string list, w)"
  let ?kb = "cache_key [''bob''] ([] :: (string \<times> string) list)"
  let ?ka = "cache_key [''ana''] ([] :: (string \<times> string) list)"
  let ?c = "[?kb \<mapsto> \<lparr>result = [''old''], expiry = 3\<rparr>]"
  let ?c1 = "?c(?ka \<mapsto> \<lparr>result = [''ana''], expiry = 86400000005\<rparr>)"
  have other: "?kb \<noteq> ?ka"
    by (simp add: cache_key_def)
  have call: "wrapper ?f 5 [''ana''] [] ?c () = (Inr [''ana''], ?c1, ())"
    by (simp add: wrapper_def timedelta_def cache_key_def sorted_items_def Let_def)
  from frame_condition [OF call, of "[(5, [''ana''], []), (6, [''bob''], [])]"] other
  have "?c1 ?kb = ?c ?kb
      \<and> dom ?c \<subseteq> dom (fst (snd (run_calls ?f [(5, [''ana''], []), (6, [''bob''], [])] ?c ())))"
    by blast
  with call other show ?thesis
    by blast
qed

subsection \<open>One cache per wrapped function\<close>

lemma decorator_allocates:
  assumes "d \<in> set decorators"
  shows "d func st =
     (Closure func (next_ref st),
      st\<lparr>heap := (heap st)(next_ref st := Map.empty), next_ref := Suc (next_ref st)\<rparr>)"
  using assms
  by (auto simp: decorators_def commander_cache_def card_detail_cache_def combo_cache_def
        average_deck_cache_def deck_cache_def new_dict_def generate_wrapped_func_def)

lemma call_insensitive:
  assumes "captured_cache c \<noteq> a"
  shows "call c now args kwargs (st\<lparr>heap := (heap st)(a := x)\<rparr>) =
     (fst (call c now args kwargs st),
      (snd (call c now args kwargs st))
        \<lparr>heap := (heap (snd (call c now args kwargs st)))(a := x)\<rparr>)"
proof (cases c)
  case (Closure fn r)
  with assms have "r \<noteq> a" by simp
  then show ?thesis
    using Closure by (auto simp: call_def fun_upd_twist split: prod.splits)
qed

lemma call_other_cell:
  assumes "captured_cache c \<noteq> a"
  shows "heap (snd (call c now args kwargs st)) a = heap st a"
proof (cases c)
  case (Closure fn r)
  with assms show ?thesis
    by (auto simp: call_def split: prod.splits)
qed

lemma run_program_step:
  "call c now args kwargs st = (out, st') \<Longrightarrow>
   run_program ((c, now, args, kwargs) # prog) st =
     (out # fst (run_program prog st'), snd (run_program prog st'))"
  by (simp split: prod.splits)

lemma run_program_other_cell:
  assumes "\<forall>p \<in> set prog. captured_cache (fst p) \<noteq> a"
  shows "heap (snd (run_program prog st)) a = heap st a"
  using assms
proof (induction prog arbitrary: st)
  case Nil
  show ?case by simp
next
  case (Cons p prog)
  obtain c now args kwargs where p: "p = (c, now, args, kwargs)"
    by (cases p)
  obtain out st' where step: "call c now args kwargs st = (out, st')"
    by (cases "call c now args kwargs st")
  from Cons.prems p have "captured_cache c \<noteq> a"
    by simp
  from call_other_cell [OF this, of now args kwargs st] step
  have "heap st' a = heap st a"
    by simp
  moreover from Cons.prems have "heap (snd (run_program prog st')) a = heap st' a"
    by (intro Cons.IH) simp
  ultimately show ?case
    unfolding p run_program_step [OF step] by simp
qed

lemma run_program_insensitive:
  assumes "\<forall>p \<in> set prog. captured_cache (fst p) \<noteq> a"
  shows "run_program prog (st\<lparr>heap := (heap st)(a := x)\<rparr>) =
     (fst (run_program prog st),
      (snd (run_program prog st))\<lparr>heap := (heap (snd (run_program prog st)))(a := x)\<rparr>)"
  using assms
proof (induction prog arbitrary: st)
  case Nil
  show ?case by simp
next
  case (Cons p prog)
  obtain c now args kwargs where p: "p = (c, now, args, kwargs)"
    by (cases p)
  obtain out st' where step: "call c now args kwargs st = (out, st')"
    by (cases "call c now args kwargs st")
  from Cons.prems p have "captured_cache c \<noteq> a"
    by simp
  from call_insensitive [OF this, of now args kwargs st x] step
  have step': "call c now args kwargs (st\<lparr>heap := (heap st)(a := x)\<rparr>) =
      (out, st'\<lparr>heap := (heap st')(a := x)\<rparr>)"
    by simp
  from Cons.prems
  have "run_program prog (st'\<lparr>heap := (heap st')(a := x)\<rparr>) =
     (fst (run_program prog st'),
      (snd (run_program prog st'))\<lparr>heap := (heap (snd (run_program prog st')))(a := x)\<rparr>)"
    by (intro Cons.IH) simp
  then show ?case
    unfolding p run_program_step [OF step] run_program_step [OF step'] by (simp add: fun_upd_def)
qed

text \<open>
  Claim C7 (cache isolation). Wrap two functions independently, with any of the five
  decorators, the second at any later point of the program. Each closure captures a
  dictionary allocated at wrap time, empty then, and the two references differ; wrapping
  the second leaves the first dictionary as it was. From any state, any sequence of calls
  of one closure, with any arguments, leaves the other closure's dictionary unchanged,
  and runs to the same outcomes and the same state whatever that other dictionary
  holds: it is neither written nor read.
\<close>

theorem cache_isolation:
  assumes dec1: "d1 \<in> set decorators"
    and dec2: "d2 \<in> set decorators"
    and wrap1: "d1 f1 st0 = (c1, st1)"
    and later: "next_ref st1 \<le> next_ref st1'"
    and wrap2: "d2 f2 st1' = (c2, st2)"
    and calls1: "\<forall>p \<in> set prog1. fst p = c1"
    and calls2: "\<forall>p \<in> set prog2. fst p = c2"
  shows "captured_cache c1 \<noteq> captured_cache c2
       \<and> heap st1 (captured_cache c1) = Map.empty
       \<and> heap st2 (captured_cache c2) = Map.empty
       \<and> heap st2 (captured_cache c1) = heap st1' (captured_cache c1)
       \<and> heap (snd (run_program prog1 st)) (captured_cache c2) = heap st (captured_cache c2)
       \<and> heap (snd (run_program prog2 st)) (captured_cache c1) = heap st (captured_cache c1)
       \<and> run_program prog1 (st\<lparr>heap := (heap st)(captured_cache c2 := x)\<rparr>) =
           (fst (run_program prog1 st),
            (snd (run_program prog1 st))
              \<lparr>heap := (heap (snd (run_program prog1 st)))(captured_cache c2 := x)\<rparr>)
       \<and> run_program prog2 (st\<lparr>heap := (heap st)(captured_cache c1 := x)\<rparr>) =
           (fst (run_program prog2 st),
            (snd (run_program prog2 st))
              \<lparr>heap := (heap (snd (run_program prog2 st)))(captured_cache c1 := x)\<rparr>)"
proof -
  from decorator_allocates [OF dec1, of f1 st0] wrap1
  have c1: "c1 = Closure f1 (next_ref st0)"
    and st1: "st1 = st0\<lparr>heap := (heap st0)(next_ref st0 := Map.empty),
                        next_ref := Suc (next_ref st0)\<rparr>"
    by simp_all
  from decorator_allocates [OF dec2, of f2 st1'] wrap2
  have c2: "c2 = Closure f2 (next_ref st1')"
    and st2: "st2 = st1'\<lparr>heap := (heap st1')(next_ref st1' := Map.empty),
                         next_ref := Suc (next_ref st1')\<rparr>"
    by simp_all
  from c1 c2 st1 later have distinct: "captured_cache c1 \<noteq> captured_cache c2"
    by simp
  from calls1 distinct have other1: "\<forall>p \<in> set prog1. captured_cache (fst p) \<noteq> captured_cache c2"
    by simp
  from calls2 distinct have other2: "\<forall>p \<in> set prog2. captured_cache (fst p) \<noteq> captured_cache c1"
    by simp
  have fresh1: "heap st1 (captured_cache c1) = Map.empty"
    by (simp add: c1 st1)
  have fresh2: "heap st2 (captured_cache c2) = Map.empty"
    by (simp add: c2 st2)
  have kept: "heap st2 (captured_cache c1) = heap st1' (captured_cache c1)"
    using distinct by (simp add: c2 st2)
  note run_program_other_cell [OF other1, of st] run_program_other_cell [OF other2, of st]
    run_program_insensitive [OF other1, of st x] run_program_insensitive [OF other2, of st x]
  with distinct fresh1 fresh2 kept show ?thesis
    by blast
qed

theorem cache_isolation_witness:
  "(commander_cache :: (string, unit, string, unit) pyfun \<Rightarrow> _) \<in> set decorators
   \<and> (combo_cache :: (string, unit, string, unit) pyfun \<Rightarrow> _) \<in> set decorators
   \<and> commander_cache ((\<lambda>args kwargs w. (Inr ''commander'', w)) :: (string, unit, string, unit) pyfun)
        \<lparr>heap = \<lambda>r. Map.empty, next_ref = 0, world = ()\<rparr>
      = (Closure (\<lambda>args kwargs w. (Inr ''commander'', w)) 0,
         \<lparr>heap = \<lambda>r. Map.empty, next_ref = 1, world = ()\<rparr>)
   \<and> combo_cache ((\<lambda>args kwargs w. (Inr ''combo'', w)) :: (string, unit, string, unit) pyfun)
        \<lparr>heap = \<lambda>r. Map.empty, next_ref = 1, world = ()\<rparr>
      = (Closure (\<lambda>args kwargs w. (Inr ''combo'', w)) 1,
         \<lparr>heap = \<lambda>r. Map.empty, next_ref = 2, world = ()\<rparr>)
   \<and> heap (snd (run_program
         [(Closure ((\<lambda>args kwargs w. (Inr ''commander'', w)) :: (string, unit, string, unit) pyfun) 0,
           0, [''ana''], [])]
         \<lparr>heap = \<lambda>r. Map.empty, next_ref = 2, world = ()\<rparr>)) 1
       = (Map.empty :: (string, string) cache)
   \<and> heap (snd (run_program
         [(Closure ((\<lambda>args kwargs w. (Inr ''commander'', w)) :: (string, unit, string, unit) pyfun) 0,
           0, [''ana''], [])]
         \<lparr>heap = \<lambda>r. Map.empty, next_ref = 2, world = ()\<rparr>)) 0
       = [cache_key [''ana''] [] \<mapsto> \<lparr>result = ''commander'', expiry = 86400000000\<rparr>]"
proof -
  let ?f = "\<lambda>(args :: string list) (kwargs :: (string \<times> string) list) (w :: unit).
              (Inr ''commander'' :: unit exn + string, w)"
  let ?g = "\<lambda>(args :: string list) (kwargs :: (string \<times> string) list) (w :: unit).
              (Inr ''combo'' :: unit exn + string, w)"
  let ?st0 = "\<lparr>heap = \<lambda>r. (Map.empty :: (string, string) cache), next_ref = 0, world = ()\<rparr>"
  let ?st1 = "\<lparr>heap = \<lambda>r. (Map.empty :: (string, string) cache), next_ref = 1, world = ()\<rparr>"
  let ?st2 = "\<lparr>heap = \<lambda>r. (Map.empty :: (string, string) cache), next_ref = 2, world = ()\<rparr>"
  let ?prog1 = "[(Closure ?f 0, 0 :: int, [''ana''], [] :: (string \<times> string) list)]"
  have dec1: "(commander_cache :: (string, unit, string, unit) pyfun \<Rightarrow> _) \<in> set decorators"
    and dec2: "(combo_cache :: (string, unit, string, unit) pyfun \<Rightarrow> _) \<in> set decorators"
    by (simp_all add: decorators_def)
  have wrap1: "commander_cache ?f ?st0 = (Closure ?f 0, ?st1)"
    by (simp add: commander_cache_def new_dict_def generate_wrapped_func_def fun_upd_def)
  have later: "next_ref ?st1 \<le> next_ref ?st1"
    by simp
  have wrap2: "combo_cache ?g ?st1 = (Closure ?g 1, ?st2)"
    by (simp add: combo_cache_def new_dict_def generate_wrapped_func_def fun_upd_def)
  have calls1: "\<forall>p \<in> set ?prog1. fst p = Closure ?f 0"
    and calls2: "\<forall>p \<in> set []. fst p = Closure ?g 1"
    by simp_all
  from cache_isolation [OF dec1 dec2 wrap1 later wrap2 calls1 calls2, of ?st2]
  have "heap (snd (run_program ?prog1 ?st2)) 1 = Map.empty"
    by simp
  moreover have "heap (snd (run_program ?prog1 ?st2)) 0 =
      [cache_key [''ana''] [] \<mapsto> \<lparr>result = ''commander'', expiry = 86400000000\<rparr>]"
    by (simp add: call_def wrapper_def timedelta_def Let_def)
  ultimately show ?thesis
    using dec1 dec2 wrap1 wrap2 by blast
qed

subsection \<open>Positional against keyword passing\<close>

text \<open>
  Claim C10 (no normalisation of positional and keyword arguments). For
  \<open>get_commander_data\<close>, passing the bracket positionally and passing it as
  \<open>bracket=...\<close> bind the same parameters to the same values, yet the two calls have
  different cache keys: from an empty cache, when the function returns on both, it is
  invoked twice and two entries are stored for the one logical request.
\<close>

theorem positional_versus_keyword:
  assumes ret1: "f [self, name, b] [] w = (Inr r1, w1)"
    and ret2: "f [self, name] [(''bracket'', b)] w1 = (Inr r2, w2)"
  shows "bind_params get_commander_data_signature [self, name, b] []
           = Some [(''self'', self), (''card_name'', name), (''bracket'', b),
                   (''tag'', PyNone), (''budget'', PyNone)]
       \<and> bind_params get_commander_data_signature [self, name] [(''bracket'', b)]
           = bind_params get_commander_data_signature [self, name, b] []
       \<and> cache_key [self, name, b] [] \<noteq> cache_key [self, name] [(''bracket'', b)]
       \<and> run_calls (counting f)
            [(t1, [self, name, b], []), (t2, [self, name], [(''bracket'', b)])]
            Map.empty (0, w)
           = ([Inr r1, Inr r2],
              [cache_key [self, name, b] [] \<mapsto> \<lparr>result = r1, expiry = t1 + timedelta 86400\<rparr>,
               cache_key [self, name] [(''bracket'', b)]
                 \<mapsto> \<lparr>result = r2, expiry = t2 + timedelta 86400\<rparr>],
              (2, w2))"
proof -
  let ?k1 = "cache_key [self, name, b] []"
  let ?k2 = "cache_key [self, name] [(''bracket'', b)]"
  let ?c1 = "[?k1 \<mapsto> \<lparr>result = r1, expiry = t1 + timedelta 86400\<rparr>]"
  have bind1: "bind_params get_commander_data_signature [self, name, b] []
           = Some [(''self'', self), (''card_name'', name), (''bracket'', b),
                   (''tag'', PyNone), (''budget'', PyNone)]"
    by (simp add: get_commander_data_signature_def)
  have bind2: "bind_params get_commander_data_signature [self, name] [(''bracket'', b)]
           = Some [(''self'', self), (''card_name'', name), (''bracket'', b),
                   (''tag'', PyNone), (''budget'', PyNone)]"
    by (simp add: get_commander_data_signature_def)
  have keys: "?k1 \<noteq> ?k2"
    by (simp add: cache_key_def)
  from ret1 have first: "wrapper (counting f) t1 [self, name, b] [] Map.empty (0, w) =
      (Inr r1, ?c1, (1, w1))"
    by (simp add: wrapper_counting_invoked is_fresh_def)
  from keys have "\<not> is_fresh ?c1 ?k2 t2"
    by (simp add: is_fresh_def)
  with ret2 have second: "wrapper (counting f) t2 [self, name] [(''bracket'', b)] ?c1 (1, w1) =
      (Inr r2, ?c1(?k2 \<mapsto> \<lparr>result = r2, expiry = t2 + timedelta 86400\<rparr>), (2, w2))"
    by (simp add: wrapper_counting_invoked numeral_2_eq_2)
  from first second have "run_calls (counting f)
            [(t1, [self, name, b], []), (t2, [self, name], [(''bracket'', b)])]
            Map.empty (0, w)
           = ([Inr r1, Inr r2],
              ?c1(?k2 \<mapsto> \<lparr>result = r2, expiry = t2 + timedelta 86400\<rparr>), (2, w2))"
    by simp
  with bind1 bind2 keys show ?thesis
    by simp
qed

theorem positional_versus_keyword_witness:
  "(\<lambda>args kwargs w. (Inr (length args) :: unit exn + nat, w))
       [PyObj 0, PyStr ''atraxa'', PyStr ''optimized''] [] ()
     = (Inr 3, ())
   \<and> (\<lambda>args kwargs w. (Inr (length args) :: unit exn + nat, w))
       [PyObj 0, PyStr ''atraxa''] [(''bracket'', PyStr ''optimized'')] ()
     = (Inr 2, ())
   \<and> bind_params get_commander_data_signature
        [PyObj 0, PyStr ''atraxa''] [(''bracket'', PyStr ''optimized'')]
       = bind_params get_commander_data_signature
           [PyObj 0, PyStr ''atraxa'', PyStr ''optimized''] []
   \<and> cache_key [PyObj 0, PyStr ''atraxa'', PyStr ''optimized''] []
       \<noteq> cache_key [PyObj 0, PyStr ''atraxa''] [(''bracket'', PyStr ''optimized'')]
   \<and> run_calls (counting (\<lambda>args kwargs w. (Inr (length args) :: unit exn + nat, w)))
        [(0, [PyObj 0, PyStr ''atraxa'', PyStr ''optimized''], []),
         (1, [PyObj 0, PyStr ''atraxa''], [(''bracket'', PyStr ''optimized'')])]
        Map.empty (0, ())
       = ([Inr 3, Inr 2],
          [cache_key [PyObj 0, PyStr ''atraxa'', PyStr ''optimized''] []
             \<mapsto> \<lparr>result = 3, expiry = 0 + timedelta 86400\<rparr>,
           cache_key [PyObj 0, PyStr ''atraxa''] [(''bracket'', PyStr ''optimized'')]
             \<mapsto> \<lparr>result = 2, expiry = 1 + timedelta 86400\<rparr>],
          (2, ()))"
proof -
  let ?f = "\<lambda>(args :: pyval list) (kwargs :: (string \<times> pyval) list) (w :: unit).
              (Inr (length args) :: unit exn + nat, w)"
  have ret1: "?f [PyObj 0, PyStr ''atraxa'', PyStr ''optimized''] [] () = (Inr 3, ())"
    by simp
  have ret2: "?f [PyObj 0, PyStr ''atraxa''] [(''bracket'', PyStr ''optimized'')] () = (Inr 2, ())"
    by simp
  note two = positional_versus_keyword
    [where f = ?f and self = "PyObj 0" and name = "PyStr ''atraxa''"
       and b = "PyStr ''optimized''" and w = "()" and ?w1.0 = "()" and ?w2.0 = "()"
       and ?r1.0 = 3 and ?r2.0 = 2 and ?t1.0 = 0 and ?t2.0 = 1]
  from two ret1 ret2 show ?thesis
    by simp
qed

end
